theory Spec2Isabelle
  imports Main "HOL-Library.Sublist"
begin

section \<open>JavaScript string primitives used by the relay\<close>

text \<open>
  A JavaScript string is a sequence of UTF-16 code units. The model uses \<open>string\<close>
  (8-bit characters), so it covers texts whose code units are below 256; on those,
  \<open>length\<close>, \<open>substring\<close> and \<open>trim\<close> agree with the JavaScript ones.
  \<open>String.prototype.trim\<close> strips white space and line terminators from both ends;
  below 256 these are TAB, LF, VT, FF, CR, SPACE and NBSP.
\<close>

definition js_whitespace :: "char \<Rightarrow> bool" where
  "js_whitespace c = (of_char c \<in> {9, 10, 11, 12, 13, 32, 160 :: nat})"

definition trim :: "string \<Rightarrow> string" where
  "trim s = rev (dropWhile js_whitespace (rev (dropWhile js_whitespace s)))"

text \<open>\<open>s.substring(0, n)\<close>: the first \<open>n\<close> code units, or all of \<open>s\<close> when it is shorter.\<close>

definition substring0 :: "nat \<Rightarrow> string \<Rightarrow> string" where
  "substring0 n s = take n s"

text \<open>\<open>xs.join('\n')\<close>.\<close>

fun join_lines :: "string list \<Rightarrow> string" where
  "join_lines [] = []"
| "join_lines [l] = l"
| "join_lines (l # m # ls) = l @ CHR ''\<newline>'' # join_lines (m # ls)"

text \<open>
  \<open>text.match(/\{[\s\S]*\}/)\<close>: the leftmost match starts at the first opening brace
  and, the star being greedy over every character, ends at the last closing brace after
  it; there is no match when no closing brace follows the first opening one.
\<close>

definition match_braces :: "string \<Rightarrow> string option" where
  "match_braces s =
     (case dropWhile (\<lambda>c. c \<noteq> CHR ''{'') s of
        [] \<Rightarrow> None
      | b # rest \<Rightarrow>
          (case rev (dropWhile (\<lambda>c. c \<noteq> CHR ''}'') (rev rest)) of
             [] \<Rightarrow> None
           | inner \<Rightarrow> Some (b # inner)))"

section \<open>Conversation history\<close>

datatype role = System | User | Assistant

record message =
  role :: role
  content :: string

definition SYSTEM_PROMPT :: string where
  "SYSTEM_PROMPT = CHR ''\<newline>'' # concat (map (\<lambda>l. l @ [CHR ''\<newline>''])
   [''You are a professional AI secretary for Austin Kidwell's businesses: ASR Inc (Systems Integration) and Intellegix (Construction Business Intelligence SaaS). You handle phone calls with the professionalism of an experienced executive assistant.'',
    '''',
    ''CORE RESPONSIBILITIES:'',
    ''- Answer calls professionally and gather caller information'',
    ''- Determine the purpose of their call (sales inquiry, support, partnership, etc.)'',
    ''- Schedule meetings or take detailed messages'',
    ''- Provide basic information about our services'',
    ''- Handle construction/BI industry inquiries appropriately'',
    '''',
    ''BUSINESS CONTEXT:'',
    ''- ASR Inc: Systems integration, construction technology, project management'',
    ''- Intellegix: SaaS platform for construction business intelligence, job costing, WIP analysis'',
    ''- Location: San Diego, CA'',
    ''- Industries: Construction, Commercial development, Fire mitigation, SB721 balcony compliance'',
    '''',
    ''CONVERSATION STYLE:'',
    ''- Professional but warm and approachable'',
    ''- Keep responses concise (under 30 seconds when spoken)'',
    ''- Ask clarifying questions to understand their needs'',
    ''- Always offer to take a message or schedule a callback'',
    ''- Be knowledgeable about construction/BI terminology'',
    '''',
    ''IMPORTANT INSTRUCTIONS:'',
    ''- Always get: caller name, company, phone number, reason for calling'',
    ''- For technical questions: acknowledge expertise needed, offer to connect with Austin'',
    ''- For sales inquiries: gather project details, timeline, budget range'',
    ''- For existing clients: prioritize and offer immediate assistance'',
    ''- End calls politely with next steps clearly stated'',
    '''',
    ''Keep responses conversational, natural, and under 100 words when possible.''])"

definition system_message :: message where
  "system_message = \<lparr>role = System, content = SYSTEM_PROMPT\<rparr>"

definition user_message :: "string \<Rightarrow> message" where
  "user_message t = \<lparr>role = User, content = t\<rparr>"

definition assistant_message :: "string \<Rightarrow> message" where
  "assistant_message t = \<lparr>role = Assistant, content = t\<rparr>"

text \<open>The utterance \<open>processUserMessage\<close> returns from its \<open>catch\<close> block.\<close>

definition apology :: string where
  "apology = ''I apologize, but I'm having trouble processing your request. Could you please repeat that?''"

text \<open>The utterance the transcription handler synthesizes in its own \<open>catch\<close> block.\<close>

definition errorResponse :: string where
  "errorResponse = ''I'm sorry, I didn't catch that. Could you please repeat your question?''"

definition greeting :: string where
  "greeting = ''Hello! Thank you for calling ASR Inc and Intellegix. This is Austin's AI assistant. How can I help you today?''"

section \<open>The relay: manager, connection and event loop\<close>

text \<open>
  \<open>sessionId\<close> is \<open>null\<close> until a \<open>start\<close> event sets it to the stream identifier;
  \<open>if (sessionId)\<close> is false for \<open>null\<close> and for the empty string.
\<close>

type_synonym sid = "string option"

definition truthy :: "sid \<Rightarrow> bool" where
  "truthy k = (case k of None \<Rightarrow> False | Some x \<Rightarrow> x \<noteq> [])"

text \<open>
  A history is a JavaScript array: \<open>conversationHistory\<close> maps a session to a reference,
  and a suspended \<open>processUserMessage\<close> keeps its reference across the \<open>await\<close>. The
  arrays live in \<open>heap\<close>; \<open>fresh\<close> is the next unused address.
\<close>

type_synonym addr = nat

text \<open>
  An \<open>async\<close> function runs up to its first \<open>await\<close> and is then suspended until the
  awaited promise settles. A task is such a suspended continuation:
  \<^item> \<open>AwaitGreeting\<close>: the \<open>start\<close> case, at \<open>generateSpeech(greeting)\<close>;
  \<^item> \<open>AwaitChat a req\<close>: \<open>processUserMessage\<close> at \<open>anthropic.messages.create\<close>, with
    its \<open>history\<close> reference \<open>a\<close> and the messages \<open>req\<close> it sent (\<open>history.slice(1)\<close>);
  \<^item> \<open>AwaitSpeech t\<close>: the \<open>transcription\<close> case, at \<open>generateSpeech(response)\<close>;
  \<^item> \<open>AwaitErrorSpeech\<close>: its \<open>catch\<close> block, at \<open>generateSpeech(errorResponse)\<close>;
  \<^item> \<open>AwaitSummary t\<close>: \<open>generateCallSummary\<close> at \<open>anthropic.messages.create\<close>, the
    prompt embedding the transcript \<open>t\<close>.
\<close>

datatype task =
    AwaitGreeting
  | AwaitChat addr "message list"
  | AwaitSpeech string
  | AwaitErrorSpeech
  | AwaitSummary string

text \<open>The two \<open>setTimeout\<close> callbacks: of the \<open>stop\<close> case and of \<open>endConversation\<close>.\<close>

datatype timer = SummaryTimer | DeleteHistory sid

text \<open>A media frame written to the socket; \<open>payload\<close> is the audio before base64.\<close>

record frame =
  streamSid :: sid
  payload :: string

text \<open>
  What \<open>generateCallSummary\<close> returns when it does not return \<open>null\<close>: the object
  \<open>JSON.parse\<close> made of a JSON text, or the object literal of the fallback.
\<close>

datatype call_summary =
    Parsed string
  | Literal (caller_intent: string) (summary: string) (action_items: "string list")
      (caller_info: "(string \<times> string) list")

record conversation_data =
  transcript :: string
  messageCount :: nat

record relay =
  heap :: "addr \<Rightarrow> message list"
  fresh :: addr
  conversations :: "sid set"
  conversationHistory :: "sid \<Rightarrow> addr option"
  sessionId :: sid
  conversationBuffer :: string
  isProcessing :: bool
  tasks :: "task list"
  timers :: "(nat \<times> timer) list"
  now :: nat
  sent :: "frame list"
  logged :: "call_summary list"

definition initial :: relay where
  "initial = \<lparr>heap = (\<lambda>_. []), fresh = 0, conversations = {},
     conversationHistory = (\<lambda>_. None), sessionId = None, conversationBuffer = [],
     isProcessing = False, tasks = [], timers = [], now = 0, sent = [], logged = []\<rparr>"

text \<open>The history array stored for a session, if any.\<close>

definition history_of :: "relay \<Rightarrow> sid \<Rightarrow> message list option" where
  "history_of s k = map_option (heap s) (conversationHistory s k)"

subsection \<open>ConversationManager\<close>

text \<open>
  \<open>processUserMessage\<close> up to its \<open>await\<close>: get or create the history, push the caller's
  message. The result is the history reference and the new state.
\<close>

definition processUserMessage_call :: "sid \<Rightarrow> string \<Rightarrow> relay \<Rightarrow> addr \<times> relay" where
  "processUserMessage_call k userMessage s =
     (let (a, s1) =
            (case conversationHistory s k of
               Some a \<Rightarrow> (a, s)
             | None \<Rightarrow>
                 (fresh s,
                  s\<lparr>heap := (heap s)(fresh s := [system_message]),
                    conversationHistory := (conversationHistory s)(k \<mapsto> fresh s),
                    fresh := Suc (fresh s)\<rparr>))
      in (a, s1\<lparr>heap := (heap s1)(a := heap s1 a @ [user_message userMessage])\<rparr>))"

text \<open>\<open>history.splice(1, 2)\<close>: remove the elements at positions 1 and 2.\<close>

definition splice_1_2 :: "'a list \<Rightarrow> 'a list" where
  "splice_1_2 h = take 1 h @ drop 3 h"

text \<open>
  \<open>processUserMessage\<close> after its \<open>await\<close>. The reply is \<open>None\<close> when the request (or
  reading \<open>response.content[0].text\<close>) throws: the \<open>catch\<close> block returns the apology.
\<close>

definition processUserMessage_return :: "addr \<Rightarrow> string option \<Rightarrow> relay \<Rightarrow> string \<times> relay" where
  "processUserMessage_return a reply s =
     (case reply of
        Some assistantMessage \<Rightarrow>
          (let h = heap s a @ [assistant_message assistantMessage];
               h' = (if length h > 21 then splice_1_2 h else h)
           in (assistantMessage, s\<lparr>heap := (heap s)(a := h')\<rparr>))
      | None \<Rightarrow> (apology, s))"

definition speaker_line :: "message \<Rightarrow> string" where
  "speaker_line msg = (if role msg = User then ''Caller'' else ''Assistant'') @ '': '' @ content msg"

definition getConversationSummary :: "relay \<Rightarrow> sid \<Rightarrow> conversation_data option" where
  "getConversationSummary s k =
     (case history_of s k of
        None \<Rightarrow> None
      | Some history \<Rightarrow>
          if length history \<le> 1 then None
          else Some \<lparr>transcript = join_lines (map speaker_line (tl history)),
                     messageCount = length history - 1\<rparr>)"

definition endConversation :: "sid \<Rightarrow> relay \<Rightarrow> relay" where
  "endConversation k s =
     s\<lparr>conversations := conversations s - {k},
       timers := timers s @ [(now s + 30000, DeleteHistory k)]\<rparr>"

subsection \<open>JSON.parse\<close>

text \<open>
  \<open>JSON.parse\<close> is a builtin; the model decides whether it returns or throws a
  \<open>SyntaxError\<close>, following the JSON grammar: a lexer checks strings (escapes, no control
  characters), numbers and the three literals, and a stack automaton checks the nesting
  of arrays and objects. The object it returns is determined by the text, so the model
  returns \<open>Parsed text\<close>.
\<close>

datatype tok = TLBrace | TRBrace | TLBrack | TRBrack | TColon | TComma
  | TString | TNumber | TLiteral

datatype lexmode = Top | Str | Esc | Uni nat | Word string

definition json_ws :: "char \<Rightarrow> bool" where
  "json_ws c = (of_char c \<in> {9, 10, 13, 32 :: nat})"

definition punct :: "char \<Rightarrow> tok option" where
  "punct c =
     (if c = CHR ''{'' then Some TLBrace else if c = CHR ''}'' then Some TRBrace
      else if c = CHR ''['' then Some TLBrack else if c = CHR '']'' then Some TRBrack
      else if c = CHR '':'' then Some TColon else if c = CHR '','' then Some TComma
      else None)"

definition digit :: "char \<Rightarrow> bool" where
  "digit c = (48 \<le> (of_char c :: nat) \<and> (of_char c :: nat) \<le> 57)"

definition hex_digit :: "char \<Rightarrow> bool" where
  "hex_digit c =
     (digit c \<or> (65 \<le> (of_char c :: nat) \<and> (of_char c :: nat) \<le> 70)
      \<or> (97 \<le> (of_char c :: nat) \<and> (of_char c :: nat) \<le> 102))"

definition strip_sign :: "string \<Rightarrow> string \<Rightarrow> string" where
  "strip_sign signs w = (case w of [] \<Rightarrow> [] | c # r \<Rightarrow> if c \<in> set signs then r else w)"

text \<open>The grammar of a JSON number: \<open>-? (0 | [1-9][0-9]*) (. [0-9]+)? ([eE] [+-]? [0-9]+)?\<close>.\<close>

definition json_number :: "string \<Rightarrow> bool" where
  "json_number w =
     (let u = strip_sign ''-'' w;
          int_part = takeWhile digit u;
          r1 = dropWhile digit u;
          int_ok = (int_part = ''0'' \<or> (int_part \<noteq> [] \<and> hd int_part \<noteq> CHR ''0''));
          frac = (case r1 of [] \<Rightarrow> None | c # r \<Rightarrow> if c = CHR ''.'' then Some r else None);
          frac_ok = (case frac of None \<Rightarrow> True | Some r \<Rightarrow> takeWhile digit r \<noteq> []);
          r2 = (case frac of None \<Rightarrow> r1 | Some r \<Rightarrow> dropWhile digit r);
          exp_ok = (case r2 of
                      [] \<Rightarrow> True
                    | c # r \<Rightarrow> (c = CHR ''e'' \<or> c = CHR ''E'')
                               \<and> strip_sign ''+-'' r \<noteq> [] \<and> list_all digit (strip_sign ''+-'' r))
      in int_ok \<and> frac_ok \<and> exp_ok)"

definition word_token :: "string \<Rightarrow> tok option" where
  "word_token w =
     (if w = ''true'' \<or> w = ''false'' \<or> w = ''null'' then Some TLiteral
      else if json_number w then Some TNumber else None)"

text \<open>A word (kept reversed while it is read) ends: its token goes before the rest.\<close>

definition close_word :: "string \<Rightarrow> tok list option \<Rightarrow> tok list option" where
  "close_word w rest =
     (case word_token (rev w) of
        None \<Rightarrow> None
      | Some t \<Rightarrow> map_option (Cons t) rest)"

text \<open>
  The lexer, one character at a time. Outside strings, a maximal run of characters that
  are neither white space, punctuation nor a quote has to be a literal or a number.
\<close>

fun lex :: "lexmode \<Rightarrow> string \<Rightarrow> tok list option" where
  "lex Top [] = Some []"
| "lex Top (c # cs) =
     (if json_ws c then lex Top cs
      else if c = CHR 0x22 then lex Str cs
      else (case punct c of
              Some t \<Rightarrow> map_option (Cons t) (lex Top cs)
            | None \<Rightarrow> lex (Word [c]) cs))"
| "lex Str [] = None"
| "lex Str (c # cs) =
     (if c = CHR 0x22 then map_option (Cons TString) (lex Top cs)
      else if c = CHR 0x5C then lex Esc cs
      else if (of_char c :: nat) < 32 then None
      else lex Str cs)"
| "lex Esc [] = None"
| "lex Esc (c # cs) =
     (if c \<in> set [CHR 0x22, CHR 0x5C, CHR ''/'', CHR ''b'', CHR ''f'', CHR ''n'', CHR ''r'', CHR ''t'']
      then lex Str cs
      else if c = CHR ''u'' then lex (Uni 4) cs
      else None)"
| "lex (Uni n) [] = None"
| "lex (Uni n) (c # cs) =
     (if hex_digit c then (if n \<le> 1 then lex Str cs else lex (Uni (n - 1)) cs) else None)"
| "lex (Word w) [] = close_word w (Some [])"
| "lex (Word w) (c # cs) =
     (if json_ws c then close_word w (lex Top cs)
      else if c = CHR 0x22 then close_word w (lex Str cs)
      else (case punct c of
              Some t \<Rightarrow> close_word w (map_option (Cons t) (lex Top cs))
            | None \<Rightarrow> lex (Word (c # w)) cs))"

datatype ctx = InArray | InObject

text \<open>
  The automaton: \<open>expect_value\<close> reads a value in the context given by the stack of open
  arrays and objects, \<open>after_value\<close> reads what may follow one. The whole text is one value.
\<close>

fun expect_value :: "ctx list \<Rightarrow> tok list \<Rightarrow> bool"
  and after_value :: "ctx list \<Rightarrow> tok list \<Rightarrow> bool" where
  "expect_value st [] = False"
| "expect_value st (t # ts) =
     (case t of
        TLBrack \<Rightarrow>
          (case ts of
             [] \<Rightarrow> False
           | u # us \<Rightarrow> if u = TRBrack then after_value st us else expect_value (InArray # st) ts)
      | TLBrace \<Rightarrow>
          (case ts of
             [] \<Rightarrow> False
           | u # us \<Rightarrow>
               if u = TRBrace then after_value st us
               else if u = TString then
                 (case us of
                    [] \<Rightarrow> False
                  | v # vs \<Rightarrow> if v = TColon then expect_value (InObject # st) vs else False)
               else False)
      | TString \<Rightarrow> after_value st ts
      | TNumber \<Rightarrow> after_value st ts
      | TLiteral \<Rightarrow> after_value st ts
      | TRBrace \<Rightarrow> False
      | TRBrack \<Rightarrow> False
      | TColon \<Rightarrow> False
      | TComma \<Rightarrow> False)"
| "after_value [] ts = (ts = [])"
| "after_value (c # st) [] = False"
| "after_value (InArray # st) (t # ts) =
     (if t = TComma then expect_value (InArray # st) ts
      else if t = TRBrack then after_value st ts
      else False)"
| "after_value (InObject # st) (t # ts) =
     (if t = TRBrace then after_value st ts
      else if t = TComma then
        (case ts of
           [] \<Rightarrow> False
         | u # us \<Rightarrow>
             if u = TString then
               (case us of
                  [] \<Rightarrow> False
                | v # vs \<Rightarrow> if v = TColon then expect_value (InObject # st) vs else False)
             else False)
      else False)"

definition JSON_parse :: "string \<Rightarrow> call_summary option" where
  "JSON_parse text =
     (case lex Top text of
        None \<Rightarrow> None
      | Some ts \<Rightarrow> if expect_value [] ts then Some (Parsed text) else None)"

subsection \<open>generateCallSummary\<close>

text \<open>
  \<open>generateCallSummary\<close> up to its \<open>await\<close>: \<open>None\<close> is the early \<open>return null\<close> (no
  history, or only the system message), otherwise the transcript put into the prompt.
\<close>

definition generateCallSummary_call :: "relay \<Rightarrow> sid \<Rightarrow> string option" where
  "generateCallSummary_call s k = map_option transcript (getConversationSummary s k)"

text \<open>
  \<open>generateCallSummary\<close> after its \<open>await\<close>; \<open>None\<close> is \<open>null\<close>. The reply is \<open>None\<close> when
  the request throws. An exception of \<open>JSON.parse\<close> reaches the same \<open>catch\<close> block.
\<close>

definition generateCallSummary_return :: "string \<Rightarrow> string option \<Rightarrow> call_summary option" where
  "generateCallSummary_return conversation reply =
     (case reply of
        None \<Rightarrow> None
      | Some summaryText \<Rightarrow>
          (case match_braces summaryText of
             Some jsonMatch \<Rightarrow> JSON_parse jsonMatch
           | None \<Rightarrow>
               Some (Literal ''Call summary generation failed''
                       (substring0 200 conversation @ ''...'') [] [])))"

subsection \<open>The socket's message handler\<close>

datatype wsmsg =
    Connected
  | Start sid
  | Media
  | InterimTranscription "string option"
  | Transcription "string option"
  | Stop
  | UnknownEvent

text \<open>
  A transcription event carries \<open>None\<close> when \<open>data.alternatives[0]\<close> is missing, else the
  transcript text. Each case runs up to its first \<open>await\<close>.
\<close>

fun on_message :: "wsmsg \<Rightarrow> relay \<Rightarrow> relay" where
  "on_message Connected s = s"
| "on_message (Start k) s = s\<lparr>sessionId := k, tasks := tasks s @ [AwaitGreeting]\<rparr>"
| "on_message Media s = s"
| "on_message (InterimTranscription alt) s =
     (case alt of None \<Rightarrow> s | Some t \<Rightarrow> s\<lparr>conversationBuffer := t\<rparr>)"
| "on_message (Transcription alt) s =
     (case alt of
        None \<Rightarrow> s
      | Some userMessage \<Rightarrow>
          if isProcessing s then s
          else if length (trim userMessage) > 0 then
            (let (a, s1) = processUserMessage_call (sessionId s) userMessage
                             (s\<lparr>isProcessing := True\<rparr>)
             in s1\<lparr>tasks := tasks s1 @ [AwaitChat a (tl (heap s1 a))]\<rparr>)
          else s)"
| "on_message Stop s =
     (if truthy (sessionId s) then s\<lparr>timers := timers s @ [(now s + 1000, SummaryTimer)]\<rparr>
      else s)"
| "on_message UnknownEvent s = s"

text \<open>\<open>ws.on('close')\<close>.\<close>

definition on_close :: "relay \<Rightarrow> relay" where
  "on_close s = (if truthy (sessionId s) then endConversation (sessionId s) s else s)"

subsection \<open>Continuations and timers\<close>

definition ws_send :: "string \<Rightarrow> relay \<Rightarrow> relay" where
  "ws_send audio s = s\<lparr>sent := sent s @ [\<lparr>streamSid = sessionId s, payload = audio\<rparr>]\<rparr>"

definition finish :: "nat \<Rightarrow> relay \<Rightarrow> relay" where
  "finish i s = s\<lparr>tasks := take i (tasks s) @ drop (Suc i) (tasks s)\<rparr>"

text \<open>
  The awaited promise of task \<open>i\<close> settles: fulfilled with a text (the assistant's
  reply, the audio) or rejected (\<open>None\<close>). The continuation runs to its next \<open>await\<close> or
  to its end. The \<open>finally\<close> block of the transcription case clears \<open>isProcessing\<close>.
\<close>

fun resume :: "nat \<Rightarrow> task \<Rightarrow> string option \<Rightarrow> relay \<Rightarrow> relay" where
  "resume i AwaitGreeting (Some audio) s = finish i (ws_send audio s)"
| "resume i AwaitGreeting None s = finish i s"
| "resume i (AwaitChat a req) reply s =
     (let (response, s1) = processUserMessage_return a reply s
      in s1\<lparr>tasks := (tasks s1)[i := AwaitSpeech response]\<rparr>)"
| "resume i (AwaitSpeech t) (Some audio) s = finish i ((ws_send audio s)\<lparr>isProcessing := False\<rparr>)"
| "resume i (AwaitSpeech t) None s = s\<lparr>tasks := (tasks s)[i := AwaitErrorSpeech]\<rparr>"
| "resume i AwaitErrorSpeech (Some audio) s =
     finish i ((ws_send audio s)\<lparr>isProcessing := False\<rparr>)"
| "resume i AwaitErrorSpeech None s = finish i (s\<lparr>isProcessing := False\<rparr>)"
| "resume i (AwaitSummary conversation) reply s =
     finish i (endConversation (sessionId s)
       (case generateCallSummary_return conversation reply of
          Some result \<Rightarrow> s\<lparr>logged := logged s @ [result]\<rparr>
        | None \<Rightarrow> s))"

definition settle :: "nat \<Rightarrow> string option \<Rightarrow> relay \<Rightarrow> relay" where
  "settle i outcome s = (if i < length (tasks s) then resume i (tasks s ! i) outcome s else s)"

text \<open>
  The callbacks. \<open>SummaryTimer\<close> is the callback of the \<open>stop\<close> case: when
  \<open>generateCallSummary\<close> returns \<open>null\<close> at once it goes on to \<open>endConversation\<close>, else it
  is suspended on the request.
\<close>

fun run_timer :: "timer \<Rightarrow> relay \<Rightarrow> relay" where
  "run_timer SummaryTimer s =
     (case generateCallSummary_call s (sessionId s) of
        None \<Rightarrow> endConversation (sessionId s) s
      | Some conversation \<Rightarrow> s\<lparr>tasks := tasks s @ [AwaitSummary conversation]\<rparr>)"
| "run_timer (DeleteHistory k) s =
     s\<lparr>conversationHistory := (conversationHistory s)(k := None)\<rparr>"

text \<open>A timer fires no earlier than its due time; \<open>now\<close> is in milliseconds.\<close>

definition fire :: "nat \<Rightarrow> relay \<Rightarrow> relay" where
  "fire i s =
     (if i < length (timers s) \<and> fst (timers s ! i) \<le> now s
      then run_timer (snd (timers s ! i))
             (s\<lparr>timers := take i (timers s) @ drop (Suc i) (timers s)\<rparr>)
      else s)"

definition advance :: "nat \<Rightarrow> relay \<Rightarrow> relay" where
  "advance t s = s\<lparr>now := max (now s) t\<rparr>"

subsection \<open>Runs of the event loop\<close>

datatype event =
    Message wsmsg
  | Settle nat "string option"
  | Advance nat
  | Fire nat
  | Close

fun step :: "event \<Rightarrow> relay \<Rightarrow> relay" where
  "step (Message m) s = on_message m s"
| "step (Settle i outcome) s = settle i outcome s"
| "step (Advance t) s = advance t s"
| "step (Fire i) s = fire i s"
| "step Close s = on_close s"

fun run :: "event list \<Rightarrow> relay \<Rightarrow> relay" where
  "run [] s = s"
| "run (e # es) s = run es (step e s)"

section \<open>Notions used in the properties\<close>

text \<open>The history a dispatch extends: the stored one, or a new one with the system message.\<close>

definition base_history :: "relay \<Rightarrow> sid \<Rightarrow> message list" where
  "base_history s k = (case history_of s k of None \<Rightarrow> [system_message] | Some h \<Rightarrow> h)"

definition interims :: "string option list \<Rightarrow> event list" where
  "interims alts = map (\<lambda>alt. Message (InterimTranscription alt)) alts"

fun buffer_after :: "string \<Rightarrow> string option list \<Rightarrow> string" where
  "buffer_after b [] = b"
| "buffer_after b (None # alts) = buffer_after b alts"
| "buffer_after b (Some t # alts) = buffer_after t alts"

text \<open>
  The continuations of the transcription case (between \<open>isProcessing = true\<close> and the
  \<open>finally\<close> block), the requests of caller turns at the reasoning collaborator, and all
  requests at the reasoning collaborator.
\<close>

fun processing_task :: "task \<Rightarrow> bool" where
  "processing_task (AwaitChat a req) = True"
| "processing_task (AwaitSpeech t) = True"
| "processing_task AwaitErrorSpeech = True"
| "processing_task AwaitGreeting = False"
| "processing_task (AwaitSummary t) = False"

fun chat_request :: "task \<Rightarrow> bool" where
  "chat_request (AwaitChat a req) = True"
| "chat_request _ = False"

fun reasoning_request :: "task \<Rightarrow> bool" where
  "reasoning_request (AwaitChat a req) = True"
| "reasoning_request (AwaitSummary t) = True"
| "reasoning_request _ = False"

definition flag_inv :: "relay \<Rightarrow> bool" where
  "flag_inv s = (length (filter processing_task (tasks s)) = (if isProcessing s then 1 else 0))"

text \<open>
  While the history of \<open>k\<close> is kept: it is stored, and every pending deletion of it is
  due at \<open>due\<close> or later (as is any deletion scheduled from now on).
\<close>

definition grace_inv :: "sid \<Rightarrow> addr \<Rightarrow> nat \<Rightarrow> relay \<Rightarrow> bool" where
  "grace_inv k a due s =
     (conversationHistory s k = Some a \<and> due \<le> now s + 30000
      \<and> list_all (\<lambda>p. snd p = DeleteHistory k \<longrightarrow> due \<le> fst p) (timers s))"

text \<open>The earliest due time of a deletion of the history of \<open>k\<close> once a teardown at \<open>now\<close> is added.\<close>

definition deletion_due :: "sid \<Rightarrow> relay \<Rightarrow> nat" where
  "deletion_due k s =
     foldr min (map fst (filter (\<lambda>p. snd p = DeleteHistory k) (timers s))) (now s + 30000)"

subsection \<open>Scenarios\<close>

text \<open>A call starts and the greeting is synthesized and played.\<close>

definition call_start :: "event list" where
  "call_start = [Message (Start (Some ''CA1'')), Settle 0 (Some ''audio'')]"

text \<open>One successful turn: final fragment, reply of the collaborator, its audio.\<close>

definition exchange :: "string \<Rightarrow> string \<Rightarrow> event list" where
  "exchange said reply =
     [Message (Transcription (Some said)), Settle 0 (Some reply), Settle 0 (Some ''audio'')]"

text \<open>The call stops; one second later the summary callback runs.\<close>

definition call_stop :: "event list" where
  "call_stop = [Message Stop, Advance 1000, Fire 0]"

text \<open>A whole call, its summary, and the deletion of its history after the delay.\<close>

definition torn_down :: "event list" where
  "torn_down = call_start @ exchange ''hello'' ''Hi there'' @ call_stop
     @ [Settle 0 (Some ''no json''), Advance 31000, Fire 0]"

text \<open>
  A call whose socket closes right after the stop; the summary arrives at 5000 ms and
  the stop callback tears the conversation down a second time.
\<close>

definition closed_then_summarised :: "event list" where
  "closed_then_summarised = call_start @ exchange ''hello'' ''Hi there''
     @ [Message Stop, Close, Advance 1000, Fire 0, Advance 5000, Settle 0 (Some ''no json'')]"

text \<open>
  Ten successful turns; a reply with a JSON object after some prose; a reply that holds
  braces and is not JSON (a trailing comma).
\<close>

definition ten_exchanges :: "event list" where
  "ten_exchanges = concat (replicate 10 (exchange ''hi'' ''ok''))"

definition well_formed_span :: string where
  \<open>well_formed_span = ''{"caller_intent": "billing", "summary": "Asked about an invoice.", "action_items": ["call back"], "caller_info": {}}''\<close>

definition well_formed_reply :: string where
  "well_formed_reply = ''Here is the summary: '' @ well_formed_span"

definition malformed_reply :: string where
  \<open>malformed_reply = ''{"caller_intent": "billing", "action_items": ["call back",]}''\<close>

section \<open>The record store's search (backend-setup.md)\<close>

text \<open>
  The \<open>CallLog\<close> model. No column is declared \<open>nullable=False\<close>, so the columns other
  than the key and the defaulted \<open>created_at\<close> hold \<open>NULL\<close> (\<open>None\<close>) or a value.
\<close>

record call_log =
  id' :: int
  caller_phone :: "string option"
  call_duration :: "int option"
  transcript :: "string option"
  summary :: "string option"
  caller_intent :: "string option"
  action_items :: "string list option"
  created_at :: int

text \<open>
  SQLAlchemy's \<open>column.contains(other)\<close> renders \<open>column LIKE '%' || other || '%'\<close> and
  does not escape \<open>other\<close>. \<open>like_match pattern subject\<close> is the database's \<open>LIKE\<close>: \<open>%\<close>
  matches any sequence, \<open>_\<close> any one character, and a backslash (the default escape
  character of PostgreSQL, the database of the setup guide) makes the next character
  literal. \<open>NULL LIKE pattern\<close> is \<open>NULL\<close>, which selects no row in the disjunction.
\<close>

fun like_match :: "string \<Rightarrow> string \<Rightarrow> bool" where
  "like_match [] s = (s = [])"
| "like_match (p # ps) s =
     (if p = CHR ''%'' then
        like_match ps s \<or> (case s of [] \<Rightarrow> False | c # cs \<Rightarrow> like_match (p # ps) cs)
      else if p = CHR ''_'' then
        (case s of [] \<Rightarrow> False | c # cs \<Rightarrow> like_match ps cs)
      else if p = CHR 0x5C then
        (case ps of
           [] \<Rightarrow> False
         | q # qs \<Rightarrow> (case s of [] \<Rightarrow> False | c # cs \<Rightarrow> c = q \<and> like_match qs cs))
      else (case s of [] \<Rightarrow> False | c # cs \<Rightarrow> c = p \<and> like_match ps cs))"

definition contains :: "string option \<Rightarrow> string \<Rightarrow> bool" where
  "contains column other =
     (case column of None \<Rightarrow> False | Some v \<Rightarrow> like_match (CHR ''%'' # other @ ''%'') v)"

text \<open>
  \<open>search_calls\<close>: the request's \<open>query\<close> (the empty string when the key is absent), the
  filter over three columns, newest first.
\<close>

definition search_calls :: "string option \<Rightarrow> call_log list \<Rightarrow> call_log list" where
  "search_calls query_field db =
     (let query = (case query_field of None \<Rightarrow> [] | Some q \<Rightarrow> q)
      in rev (sort_key created_at
           (filter (\<lambda>c. contains (caller_phone c) query \<or> contains (caller_intent c) query
                        \<or> contains (summary c) query) db)))"

text \<open>A character that \<open>LIKE\<close> takes literally; a text occurring in a column's value.\<close>

definition plain :: "char \<Rightarrow> bool" where
  "plain c = (c \<noteq> CHR ''%'' \<and> c \<noteq> CHR ''_'' \<and> c \<noteq> CHR 0x5C)"

definition occurs_in :: "string \<Rightarrow> string option \<Rightarrow> bool" where
  "occurs_in q column = (case column of None \<Rightarrow> False | Some v \<Rightarrow> sublist q v)"

definition sample_call :: call_log where
  "sample_call = \<lparr>id' = 1, caller_phone = Some ''+16195550100'', call_duration = Some 323,
     transcript = Some ''Caller: my water heater is leaking'',
     summary = Some ''Customer reported an appliance issue'',
     caller_intent = Some ''Maintenance Request'',
     action_items = Some [''Schedule a visit''], created_at = 100\<rparr>"

section \<open>Evaluation and the shape of a dispatch\<close>

lemmas relay_eval = initial_def settle_def fire_def advance_def on_close_def finish_def ws_send_def
  endConversation_def processUserMessage_call_def processUserMessage_return_def splice_1_2_def
  generateCallSummary_call_def generateCallSummary_return_def getConversationSummary_def
  history_of_def truthy_def trim_def js_whitespace_def match_braces_def speaker_line_def
  substring0_def user_message_def assistant_message_def
  call_start_def exchange_def call_stop_def

lemma run_append: "run (xs @ ys) s = run ys (run xs s)"
  by (induction xs arbitrary: s) auto

lemma dispatch:
  assumes "\<not> isProcessing s" and "trim t \<noteq> []"
  shows "on_message (Transcription (Some t)) s =
     (case conversationHistory s (sessionId s) of
        Some a \<Rightarrow>
          s\<lparr>isProcessing := True,
            heap := (heap s)(a := heap s a @ [user_message t]),
            tasks := tasks s @ [AwaitChat a (tl (heap s a @ [user_message t]))]\<rparr>
      | None \<Rightarrow>
          s\<lparr>isProcessing := True,
            heap := (heap s)(fresh s := [system_message, user_message t]),
            conversationHistory := (conversationHistory s)(sessionId s \<mapsto> fresh s),
            fresh := Suc (fresh s),
            tasks := tasks s @ [AwaitChat (fresh s) [user_message t]]\<rparr>)"
  using assms
  by (simp add: processUserMessage_call_def split: option.splits)

section \<open>Blank final fragments\<close>

lemma trim_blank:
  assumes "list_all js_whitespace t"
  shows "trim t = []"
proof -
  from assms have blank: "dropWhile js_whitespace t = []"
    by (simp add: list_all_iff)
  show ?thesis
    unfolding trim_def blank by simp
qed

text \<open>
  C6. A final transcription fragment whose text is empty or consists of white space
  only changes nothing: no caller turn is appended, no request to the reasoning
  collaborator is started, the stored histories are the same (the whole state is).
\<close>

theorem blank_final_is_ignored:
  "list_all js_whitespace t \<Longrightarrow> step (Message (Transcription (Some t))) s = s"
  by (simp add: trim_blank)

theorem blank_final_is_ignored_witness:
  "list_all js_whitespace [CHR '' '', CHR 0x09, CHR '' '']
   \<and> step (Message (Transcription (Some [CHR '' '', CHR 0x09, CHR '' '']))) initial = initial"
proof -
  have blank: "list_all js_whitespace [CHR '' '', CHR 0x09, CHR '' '']"
    by (simp add: js_whitespace_def)
  from blank blank_final_is_ignored [OF blank, of initial] show ?thesis by simp
qed

section \<open>A failed dispatch\<close>

text \<open>
  C2, as the claim states it, fails: the caller's message is pushed before the request
  is made and stays in the history when the request fails. After one successful turn,
  a second turn whose request fails leaves a history that is one caller turn longer.
\<close>

theorem failed_dispatch_changes_history:
  "history_of (run (call_start @ exchange ''hello'' ''Hi there'') initial) (Some ''CA1'')
     = Some [system_message, user_message ''hello'', assistant_message ''Hi there'']
   \<and> history_of (run (call_start @ exchange ''hello'' ''Hi there''
         @ [Message (Transcription (Some ''and then'')), Settle 0 None]) initial) (Some ''CA1'')
     = Some [system_message, user_message ''hello'', assistant_message ''Hi there'',
             user_message ''and then'']"
  by (simp add: relay_eval)

text \<open>
  C2, amended. When the request of a dispatched caller turn fails, the apology is what
  is sent to speech synthesis and, once synthesized, what is emitted; no assistant turn
  is appended; the caller turn of the failed attempt stays: the history is the one
  before the dispatch followed by that caller turn. The flag is cleared at the end.
\<close>

theorem failed_dispatch_keeps_caller_turn:
  assumes "\<not> isProcessing s" and "trim t \<noteq> []"
  shows "let k = sessionId s; n = length (tasks s);
             s1 = step (Message (Transcription (Some t))) s;
             s2 = step (Settle n None) s1;
             s3 = step (Settle n (Some audio)) s2
         in history_of s1 k = Some (base_history s k @ [user_message t])
          \<and> history_of s2 k = Some (base_history s k @ [user_message t])
          \<and> tasks s2 = tasks s @ [AwaitSpeech apology]
          \<and> history_of s3 k = Some (base_history s k @ [user_message t])
          \<and> sent s3 = sent s @ [\<lparr>streamSid = k, payload = audio\<rparr>]
          \<and> tasks s3 = tasks s \<and> \<not> isProcessing s3"
proof -
  have s1: "step (Message (Transcription (Some t))) s =
     (case conversationHistory s (sessionId s) of
        Some a \<Rightarrow>
          s\<lparr>isProcessing := True,
            heap := (heap s)(a := heap s a @ [user_message t]),
            tasks := tasks s @ [AwaitChat a (tl (heap s a @ [user_message t]))]\<rparr>
      | None \<Rightarrow>
          s\<lparr>isProcessing := True,
            heap := (heap s)(fresh s := [system_message, user_message t]),
            conversationHistory := (conversationHistory s)(sessionId s \<mapsto> fresh s),
            fresh := Suc (fresh s),
            tasks := tasks s @ [AwaitChat (fresh s) [user_message t]]\<rparr>)"
    using dispatch [OF assms] by simp
  show ?thesis
    unfolding Let_def s1
    by (simp add: settle_def processUserMessage_return_def finish_def ws_send_def
        history_of_def base_history_def split: option.splits)
qed

theorem failed_dispatch_keeps_caller_turn_witness:
  "\<not> isProcessing (run call_start initial) \<and> trim ''hello'' \<noteq> []
   \<and> history_of (run (call_start @ [Message (Transcription (Some ''hello'')), Settle 0 None]) initial)
        (Some ''CA1'') = Some [system_message, user_message ''hello'']
   \<and> sent (run (call_start @ [Message (Transcription (Some ''hello'')), Settle 0 None,
                  Settle 0 (Some ''apology audio'')]) initial)
      = [\<lparr>streamSid = Some ''CA1'', payload = ''audio''\<rparr>,
         \<lparr>streamSid = Some ''CA1'', payload = ''apology audio''\<rparr>]"
proof -
  have idle: "\<not> isProcessing (run call_start initial)"
    by (simp add: relay_eval)
  have nonblank: "trim ''hello'' \<noteq> []"
    by (simp add: relay_eval)
  from failed_dispatch_keeps_caller_turn [OF idle nonblank, of "''apology audio''"] idle nonblank
  show ?thesis
    by (simp add: Let_def run_append base_history_def) (simp add: relay_eval)
qed

section \<open>Interim and final fragments\<close>

lemma run_interims:
  "run (interims alts) s = s\<lparr>conversationBuffer := buffer_after (conversationBuffer s) alts\<rparr>"
proof (induction alts arbitrary: s)
  case Nil
  show ?case by (simp add: interims_def)
next
  case (Cons alt alts)
  from Cons.IH [of "step (Message (InterimTranscription alt)) s"] show ?case
    by (cases alt) (simp_all add: interims_def)
qed

lemma buffer_after_last: "buffer_after b (alts @ [Some t]) = t"
  by (induction b alts rule: buffer_after.induct) simp_all

text \<open>
  C3, as the claim states it, fails in two ways. A final fragment that is not empty but
  blank appends no caller turn; and a final fragment that arrives while the reply to
  an earlier one is pending is dropped (here \<open>''second''\<close> never reaches the history).
\<close>

theorem final_fragment_not_always_appended:
  "history_of (run (call_start @ interims [Some [], Some ''I need'']
        @ [Message (Transcription (Some '' ''))]) initial) (Some ''CA1'') = None
   \<and> history_of (run (call_start @ [Message (Transcription (Some ''first''))]
        @ interims [Some ''sec''] @ [Message (Transcription (Some ''second''))]) initial)
        (Some ''CA1'') = Some [system_message, user_message ''first'']"
  by (simp add: relay_eval interims_def)

text \<open>
  C3, amended. For every sequence of interim fragments followed by one final fragment
  whose text is not blank, arriving while no turn is being processed, exactly one
  caller turn is appended to the session's history, and its text is the final
  fragment's text. An interim fragment replaces the buffered text: after an interim
  fragment with text \<open>b\<close> the buffer is \<open>b\<close>, whatever came before.
\<close>

theorem final_fragment_appends_one_caller_turn:
  assumes "\<not> isProcessing s" and "trim t \<noteq> []"
  shows "history_of (run (interims alts @ [Message (Transcription (Some t))]) s) (sessionId s)
           = Some (base_history s (sessionId s) @ [user_message t])
       \<and> conversationBuffer (run (interims (earlier @ [Some b])) s) = b"
proof -
  let ?s0 = "s\<lparr>conversationBuffer := buffer_after (conversationBuffer s) alts\<rparr>"
  have idle: "\<not> isProcessing ?s0" using assms(1) by simp
  have "history_of (on_message (Transcription (Some t)) ?s0) (sessionId s)
           = Some (base_history s (sessionId s) @ [user_message t])"
    unfolding dispatch [OF idle assms(2)]
    by (simp add: history_of_def base_history_def split: option.splits)
  then show ?thesis
    by (simp add: run_append run_interims buffer_after_last)
qed

theorem final_fragment_appends_one_caller_turn_witness:
  "\<not> isProcessing (run call_start initial) \<and> trim ''I need an appointment Wednesday'' \<noteq> []
   \<and> history_of (run (call_start @ interims [Some [], Some ''I need'']
         @ [Message (Transcription (Some ''I need an appointment Wednesday''))]) initial)
        (Some ''CA1'') = Some [system_message, user_message ''I need an appointment Wednesday'']
   \<and> conversationBuffer (run (call_start @ interims [Some [], Some ''I need'']) initial)
        = ''I need''"
proof -
  have idle: "\<not> isProcessing (run call_start initial)"
    by (simp add: relay_eval)
  have nonblank: "trim ''I need an appointment Wednesday'' \<noteq> []"
    by (simp add: relay_eval)
  from final_fragment_appends_one_caller_turn [OF idle nonblank, of "[Some [], Some ''I need'']"
      "[Some []]" "''I need''"] idle nonblank
  show ?thesis
    by (simp add: run_append base_history_def) (simp add: relay_eval interims_def)
qed

section \<open>One dispatch at a time\<close>

lemma filter_remove_nth:
  assumes "i < length xs"
  shows "length (filter P (take i xs @ drop (Suc i) xs)) + (if P (xs ! i) then 1 else 0)
         = length (filter P xs)"
proof -
  from assms have "xs = take i xs @ xs ! i # drop (Suc i) xs"
    by (rule id_take_nth_drop)
  then have "length (filter P xs) = length (filter P (take i xs @ xs ! i # drop (Suc i) xs))"
    by simp
  then show ?thesis by simp
qed

lemma filter_update_nth:
  assumes "i < length xs"
  shows "length (filter P (xs[i := y])) + (if P (xs ! i) then 1 else 0)
         = length (filter P xs) + (if P y then 1 else 0)"
proof -
  from assms have "xs[i := y] = take i xs @ y # drop (Suc i) xs"
    by (rule upd_conv_take_nth_drop)
  moreover from assms have "xs = take i xs @ xs ! i # drop (Suc i) xs"
    by (rule id_take_nth_drop)
  then have "length (filter P xs) = length (filter P (take i xs @ xs ! i # drop (Suc i) xs))"
    by simp
  ultimately show ?thesis by simp
qed

lemma flag_inv_message: "flag_inv s \<Longrightarrow> flag_inv (on_message m s)"
  by (cases m) (auto simp: flag_inv_def processUserMessage_call_def split: option.splits)

lemma flag_inv_resume:
  assumes "flag_inv s" and "i < length (tasks s)"
  shows "flag_inv (resume i (tasks s ! i) outcome s)"
proof (cases "tasks s ! i")
  case AwaitGreeting
  with assms filter_remove_nth [of i "tasks s" processing_task] show ?thesis
    by (cases outcome) (simp_all add: flag_inv_def finish_def ws_send_def)
next
  case (AwaitChat a req)
  with assms filter_update_nth [of i "tasks s" processing_task "AwaitSpeech (fst (processUserMessage_return a outcome s))"]
  show ?thesis
    by (cases outcome) (simp_all add: flag_inv_def processUserMessage_return_def Let_def)
next
  case (AwaitSpeech t)
  with assms filter_remove_nth [of i "tasks s" processing_task]
    filter_update_nth [of i "tasks s" processing_task AwaitErrorSpeech]
  show ?thesis
    by (cases outcome) (simp_all add: flag_inv_def finish_def ws_send_def split: if_splits)
next
  case AwaitErrorSpeech
  with assms filter_remove_nth [of i "tasks s" processing_task] show ?thesis
    by (cases outcome) (simp_all add: flag_inv_def finish_def ws_send_def split: if_splits)
next
  case (AwaitSummary t)
  with assms filter_remove_nth [of i "tasks s" processing_task] show ?thesis
    by (auto simp: flag_inv_def finish_def endConversation_def split: option.splits if_splits)
qed

lemma flag_inv_fire: "flag_inv s \<Longrightarrow> flag_inv (fire i s)"
proof -
  have timer: "flag_inv (run_timer tm u)" if "flag_inv u" for tm u
    using that by (cases tm) (auto simp: flag_inv_def endConversation_def split: option.splits)
  assume "flag_inv s"
  then have "flag_inv (s\<lparr>timers := take i (timers s) @ drop (Suc i) (timers s)\<rparr>)"
    by (simp add: flag_inv_def)
  with \<open>flag_inv s\<close> show ?thesis
    by (simp add: fire_def timer)
qed

lemma flag_inv_step: "flag_inv s \<Longrightarrow> flag_inv (step e s)"
proof (cases e)
  case (Message m)
  assume "flag_inv s"
  with Message show ?thesis by (simp add: flag_inv_message)
next
  case (Settle i outcome)
  assume "flag_inv s"
  with Settle show ?thesis by (simp add: settle_def flag_inv_resume)
next
  case (Advance t)
  assume "flag_inv s"
  with Advance show ?thesis by (simp add: advance_def flag_inv_def)
next
  case (Fire i)
  assume "flag_inv s"
  with Fire show ?thesis by (simp add: flag_inv_fire)
next
  case Close
  assume "flag_inv s"
  with Close show ?thesis by (auto simp: on_close_def endConversation_def flag_inv_def)
qed

lemma flag_inv_run: "flag_inv s \<Longrightarrow> flag_inv (run evs s)"
  by (induction evs arbitrary: s) (simp_all add: flag_inv_step)

lemma chat_le_processing:
  "length (filter chat_request ts) \<le> length (filter processing_task ts)"
proof (induction ts)
  case Nil
  show ?case by simp
next
  case (Cons t ts)
  then show ?case by (cases t) simp_all
qed

text \<open>
  C4, as the claim states it, fails: the summary request made one second after the
  call stops is not guarded by the flag. When the call stops while the reply to a
  caller turn is pending, two requests at the reasoning collaborator are in flight.
\<close>

theorem summary_request_overlaps_dispatch:
  "tasks (run (call_start @ [Message (Transcription (Some ''hello'')), Message Stop,
                  Advance 1000, Fire 0]) initial)
     = [AwaitChat 0 [user_message ''hello''], AwaitSummary ''Caller: hello'']
   \<and> length (filter reasoning_request (tasks (run (call_start
        @ [Message (Transcription (Some ''hello'')), Message Stop, Advance 1000, Fire 0])
        initial))) = 2"
  by (simp add: relay_eval)

text \<open>
  C4, amended. On a connection, after every sequence of events, at most one request
  for a caller turn is in flight at the reasoning collaborator; while one is, the flag
  is set, and a final fragment that arrives while the flag is set changes nothing (no
  second dispatch). The summary request after the call's stop is outside this guard.
\<close>

theorem one_dispatch_in_flight:
  assumes "tasks s = []" and "\<not> isProcessing s"
  shows "length (filter chat_request (tasks (run evs s))) \<le> 1
       \<and> (length (filter chat_request (tasks (run evs s))) = 1 \<longrightarrow> isProcessing (run evs s))
       \<and> (isProcessing (run evs s) \<longrightarrow>
            step (Message (Transcription alt)) (run evs s) = run evs s)"
proof -
  from assms have "flag_inv s" by (simp add: flag_inv_def)
  then have inv: "flag_inv (run evs s)" by (rule flag_inv_run)
  have le: "length (filter chat_request (tasks (run evs s)))
        \<le> length (filter processing_task (tasks (run evs s)))"
    by (rule chat_le_processing)
  have "step (Message (Transcription alt)) (run evs s) = run evs s" if "isProcessing (run evs s)"
    using that by (cases alt) simp_all
  with inv le show ?thesis
    by (auto simp: flag_inv_def split: if_splits)
qed

theorem one_dispatch_in_flight_witness:
  "tasks initial = [] \<and> \<not> isProcessing initial
   \<and> length (filter chat_request (tasks (run (call_start
        @ [Message (Transcription (Some ''first'')), Message (Transcription (Some ''second''))])
        initial))) = 1
   \<and> step (Message (Transcription (Some ''third''))) (run (call_start
        @ [Message (Transcription (Some ''first'')), Message (Transcription (Some ''second''))])
        initial)
     = run (call_start
        @ [Message (Transcription (Some ''first'')), Message (Transcription (Some ''second''))])
        initial"
proof -
  have none: "tasks initial = []" and idle: "\<not> isProcessing initial"
    by (simp_all add: initial_def)
  have one: "length (filter chat_request (tasks (run (call_start
        @ [Message (Transcription (Some ''first'')), Message (Transcription (Some ''second''))])
        initial))) = 1"
    by (simp add: relay_eval)
  from one_dispatch_in_flight [OF none idle, of "call_start
        @ [Message (Transcription (Some ''first'')), Message (Transcription (Some ''second''))]"
        "Some ''third''"] one none idle
  show ?thesis by blast
qed

section \<open>Fragments after the teardown\<close>

text \<open>
  C5, as the claim states it, fails: the relay keeps no record that a call has ended.
  After a whole call, its summary and the deletion of its history, a final fragment on
  the same connection creates a new history for the call identifier, appends the
  caller turn and dispatches a request to the reasoning collaborator.
\<close>

theorem fragment_after_teardown_is_processed:
  "history_of (run torn_down initial) (Some ''CA1'') = None
   \<and> tasks (run torn_down initial) = []
   \<and> history_of (run (torn_down @ [Message (Transcription (Some ''are you there''))]) initial)
        (Some ''CA1'') = Some [system_message, user_message ''are you there'']
   \<and> tasks (run (torn_down @ [Message (Transcription (Some ''are you there''))]) initial)
        = [AwaitChat 1 [user_message ''are you there'']]"
  by (simp add: relay_eval torn_down_def)

text \<open>
  C5, amended. After the teardown (the history of the call identifier is deleted), a
  final fragment with a text that is not blank, arriving while no turn is being
  processed, starts a new history (system message, caller turn) and dispatches a
  request with that caller turn; an interim fragment touches neither the histories
  nor the pending requests. (Blank final fragments change nothing, see C6.)
\<close>

theorem final_after_teardown_starts_new_history:
  assumes "conversationHistory s (sessionId s) = None" and "\<not> isProcessing s" and "trim t \<noteq> []"
  shows "history_of (step (Message (Transcription (Some t))) s) (sessionId s)
           = Some [system_message, user_message t]
       \<and> tasks (step (Message (Transcription (Some t))) s)
           = tasks s @ [AwaitChat (fresh s) [user_message t]]
       \<and> heap (step (Message (InterimTranscription alt)) s) = heap s
       \<and> conversationHistory (step (Message (InterimTranscription alt)) s) = conversationHistory s
       \<and> tasks (step (Message (InterimTranscription alt)) s) = tasks s"
proof -
  have "step (Message (Transcription (Some t))) s = on_message (Transcription (Some t)) s"
    by simp
  also note dispatch [OF assms(2,3)]
  finally show ?thesis
    using assms(1)
    by (simp add: history_of_def base_history_def split: option.splits)
qed

theorem final_after_teardown_starts_new_history_witness:
  "conversationHistory (run torn_down initial) (sessionId (run torn_down initial)) = None
   \<and> \<not> isProcessing (run torn_down initial) \<and> trim ''are you there'' \<noteq> []
   \<and> history_of (step (Message (Transcription (Some ''are you there''))) (run torn_down initial))
        (sessionId (run torn_down initial)) = Some [system_message, user_message ''are you there'']
   \<and> sessionId (run torn_down initial) = Some ''CA1''"
proof -
  have gone: "conversationHistory (run torn_down initial) (sessionId (run torn_down initial)) = None"
    by (simp add: relay_eval torn_down_def)
  have idle: "\<not> isProcessing (run torn_down initial)"
    by (simp add: relay_eval torn_down_def)
  have nonblank: "trim ''are you there'' \<noteq> []"
    by (simp add: relay_eval torn_down_def)
  have sid: "sessionId (run torn_down initial) = Some ''CA1''"
    by (simp add: relay_eval torn_down_def)
  from final_after_teardown_starts_new_history [OF gone idle nonblank] gone idle nonblank sid
  show ?thesis by blast
qed

section \<open>The grace delay of the teardown\<close>

lemma now_on_message: "now (on_message m s) = now s"
  by (cases m) (auto simp: processUserMessage_call_def split: option.splits)

lemma now_resume: "now (resume i tk outcome s) = now s"
  by (cases tk; cases outcome)
     (simp_all add: finish_def ws_send_def endConversation_def processUserMessage_return_def
        Let_def split: option.splits)

lemma now_run_timer: "now (run_timer tm s) = now s"
  by (cases tm) (auto simp: endConversation_def split: option.splits)

lemma now_step: "now s \<le> now (step e s)"
  by (cases e)
     (auto simp: now_on_message now_resume now_run_timer settle_def fire_def advance_def
        on_close_def endConversation_def)

lemma now_run: "now s \<le> now (run evs s)"
proof (induction evs arbitrary: s)
  case Nil
  show ?case by simp
next
  case (Cons e evs)
  have "now s \<le> now (step e s)" by (rule now_step)
  also have "\<dots> \<le> now (run evs (step e s))" by (rule Cons.IH)
  finally show ?case by simp
qed

lemma grace_inv_endConversation:
  "grace_inv k a due s \<Longrightarrow> grace_inv k a due (endConversation k' s)"
  by (auto simp: grace_inv_def endConversation_def)

lemma grace_inv_on_message: "grace_inv k a due s \<Longrightarrow> grace_inv k a due (on_message m s)"
  by (cases m) (auto simp: grace_inv_def processUserMessage_call_def split: option.splits)

lemma grace_inv_resume: "grace_inv k a due s \<Longrightarrow> grace_inv k a due (resume i tk outcome s)"
proof (cases tk)
  case (AwaitSummary conversation)
  assume inv: "grace_inv k a due s"
  have "grace_inv k a due
     (case generateCallSummary_return conversation outcome of
        Some result \<Rightarrow> s\<lparr>logged := logged s @ [result]\<rparr> | None \<Rightarrow> s)"
    using inv by (simp add: grace_inv_def split: option.splits)
  then have "grace_inv k a due (endConversation (sessionId s)
     (case generateCallSummary_return conversation outcome of
        Some result \<Rightarrow> s\<lparr>logged := logged s @ [result]\<rparr> | None \<Rightarrow> s))"
    by (rule grace_inv_endConversation)
  with AwaitSummary show ?thesis
    by (simp add: grace_inv_def finish_def)
qed (cases outcome;
     simp add: grace_inv_def finish_def ws_send_def processUserMessage_return_def Let_def)+

lemma grace_inv_fire:
  assumes "grace_inv k a due s" and "now s < due"
  shows "grace_inv k a due (fire i s)"
proof (cases "i < length (timers s) \<and> fst (timers s ! i) \<le> now s")
  case False
  with assms(1) show ?thesis by (auto simp: fire_def)
next
  case True
  let ?s = "s\<lparr>timers := take i (timers s) @ drop (Suc i) (timers s)\<rparr>"
  from assms(1) have inv: "grace_inv k a due ?s"
    by (auto simp: grace_inv_def list_all_iff dest: in_set_takeD in_set_dropD)
  from True have "timers s ! i \<in> set (timers s)" by simp
  with assms(1) have "snd (timers s ! i) = DeleteHistory k \<longrightarrow> due \<le> fst (timers s ! i)"
    by (simp add: grace_inv_def list_all_iff)
  with True assms(2) have other: "snd (timers s ! i) \<noteq> DeleteHistory k" by auto
  have "grace_inv k a due (run_timer (snd (timers s ! i)) ?s)"
  proof (cases "snd (timers s ! i)")
    case SummaryTimer
    with inv grace_inv_endConversation [OF inv] show ?thesis
      by (auto simp: grace_inv_def split: option.splits)
  next
    case (DeleteHistory k')
    with other have "k' \<noteq> k" by simp
    with DeleteHistory inv show ?thesis by (simp add: grace_inv_def)
  qed
  with True show ?thesis by (simp add: fire_def)
qed

lemma grace_inv_step:
  assumes "grace_inv k a due s" and "now s < due"
  shows "grace_inv k a due (step e s)"
proof (cases e)
  case (Message m)
  with assms(1) show ?thesis by (simp add: grace_inv_on_message)
next
  case (Settle i outcome)
  with assms(1) show ?thesis by (simp add: settle_def grace_inv_resume)
next
  case (Advance t)
  with assms(1) show ?thesis by (auto simp: advance_def grace_inv_def)
next
  case (Fire i)
  with assms show ?thesis by (simp add: grace_inv_fire)
next
  case Close
  with assms(1) show ?thesis by (simp add: on_close_def grace_inv_endConversation)
qed

lemma grace_inv_run:
  "grace_inv k a due s \<Longrightarrow> now (run evs s) < due \<Longrightarrow> grace_inv k a due (run evs s)"
proof (induction evs arbitrary: s)
  case Nil
  then show ?case by simp
next
  case (Cons e evs)
  have "now s \<le> now (step e s)" by (rule now_step)
  also have "\<dots> \<le> now (run evs (step e s))" by (rule now_run)
  also from Cons.prems(2) have "\<dots> < due" by simp
  finally have "now s < due" .
  with Cons.prems(1) have "grace_inv k a due (step e s)" by (rule grace_inv_step)
  with Cons.prems(2) Cons.IH [of "step e s"] show ?case by simp
qed

lemma foldr_min_le_default: "foldr min ds (d :: nat) \<le> d"
  by (induction ds) (auto simp: min_def)

lemma foldr_min_le_member: "x \<in> set ds \<Longrightarrow> foldr min ds (d :: nat) \<le> x"
  by (induction ds) (auto simp: min_def)

lemma deletion_due_le: "deletion_due k s \<le> now s + 30000"
  by (simp add: deletion_due_def foldr_min_le_default)

lemma deletion_due_pending:
  assumes "p \<in> set (timers s)" and "snd p = DeleteHistory k"
  shows "deletion_due k s \<le> fst p"
proof -
  from assms have "fst p \<in> set (map fst (filter (\<lambda>p. snd p = DeleteHistory k) (timers s)))"
    by auto
  then show ?thesis
    unfolding deletion_due_def by (rule foldr_min_le_member)
qed

lemma deletion_due_first:
  assumes "list_all (\<lambda>p. snd p \<noteq> DeleteHistory k) (timers s)"
  shows "deletion_due k s = now s + 30000"
proof -
  from assms have "filter (\<lambda>p. snd p = DeleteHistory k) (timers s) = []"
    by (auto simp: list_all_iff filter_empty_conv)
  then show ?thesis by (simp add: deletion_due_def)
qed

text \<open>
  C9, as the claim states it, fails for a teardown that is not the first. Both the
  socket's close handler and the stop callback call \<open>endConversation\<close>. Here the socket
  closes right after the stop and the summary arrives at 5000 ms: the stop callback's
  teardown at 5000 ms schedules a deletion for 35000 ms, but the deletion scheduled by
  the close handler is due at 30000 ms, and the history is gone then, 25000 ms after
  that teardown.
\<close>

theorem teardown_after_close_drops_early:
  "history_of (run closed_then_summarised initial) (Some ''CA1'')
     = Some [system_message, user_message ''hello'', assistant_message ''Hi there'']
   \<and> now (run closed_then_summarised initial) = 5000
   \<and> timers (run closed_then_summarised initial)
     = [(30000, DeleteHistory (Some ''CA1'')), (35000, DeleteHistory (Some ''CA1''))]
   \<and> now (run (closed_then_summarised @ [Advance 30000, Fire 0]) initial) = 30000
   \<and> history_of (run (closed_then_summarised @ [Advance 30000, Fire 0]) initial) (Some ''CA1'')
     = None"
  by (simp add: relay_eval closed_then_summarised_def)

text \<open>
  C9, amended. For every session with a stored history, \<open>endConversation\<close> does not
  drop the history at once: right after it the stored history and the conversation
  summary read from it are what they were. The history then stays stored, through
  every sequence of events, for as long as the clock is below the earliest due time of
  a pending deletion of it; that time is the teardown's time plus 30000 ms when no
  earlier deletion is pending (the first teardown), and never later. A further
  teardown does not extend the delay. The deletion this teardown schedules drops the
  history when it fires after its 30000 ms have elapsed.
\<close>

theorem history_kept_until_deletion_due:
  assumes "conversationHistory s k = Some a"
  shows "history_of (endConversation k s) k = history_of s k
       \<and> getConversationSummary (endConversation k s) k = getConversationSummary s k
       \<and> (now (run evs (endConversation k s)) < deletion_due k s \<longrightarrow>
            conversationHistory (run evs (endConversation k s)) k = Some a)
       \<and> deletion_due k s \<le> now s + 30000
       \<and> (list_all (\<lambda>p. snd p \<noteq> DeleteHistory k) (timers s) \<longrightarrow>
            deletion_due k s = now s + 30000)
       \<and> (now s + 30000 \<le> t \<longrightarrow>
            conversationHistory (run [Advance t, Fire (length (timers s))] (endConversation k s)) k = None)"
proof -
  have kept: "history_of (endConversation k s) k = history_of s k"
    by (simp add: history_of_def endConversation_def)
  have summary: "getConversationSummary (endConversation k s) k = getConversationSummary s k"
    by (simp add: getConversationSummary_def kept)
  have "list_all (\<lambda>p. snd p = DeleteHistory k \<longrightarrow> deletion_due k s \<le> fst p) (timers s)"
    by (auto simp: list_all_iff intro: deletion_due_pending)
  with assms deletion_due_le [of k s]
  have "grace_inv k a (deletion_due k s) (endConversation k s)"
    by (simp add: grace_inv_def endConversation_def)
  then have during: "conversationHistory (run evs (endConversation k s)) k = Some a"
    if "now (run evs (endConversation k s)) < deletion_due k s"
    using that grace_inv_run [of k a "deletion_due k s" "endConversation k s" evs]
    by (simp add: grace_inv_def)
  have after: "conversationHistory (run [Advance t, Fire (length (timers s))] (endConversation k s)) k = None"
    if "now s + 30000 \<le> t"
    using that by (simp add: advance_def fire_def endConversation_def nth_append max_def)
  from kept summary during after deletion_due_le [of k s] deletion_due_first [of k s]
  show ?thesis by blast
qed

theorem history_kept_until_deletion_due_witness:
  "conversationHistory (run (call_start @ exchange ''hello'' ''Hi there'') initial) (Some ''CA1'')
     = Some 0
   \<and> list_all (\<lambda>p. snd p \<noteq> DeleteHistory (Some ''CA1''))
        (timers (run (call_start @ exchange ''hello'' ''Hi there'') initial))
   \<and> deletion_due (Some ''CA1'') (run (call_start @ exchange ''hello'' ''Hi there'') initial) = 30000
   \<and> conversationHistory (run [Advance 29999, Fire 0]
        (endConversation (Some ''CA1'') (run (call_start @ exchange ''hello'' ''Hi there'') initial)))
        (Some ''CA1'') = Some 0
   \<and> conversationHistory (run [Advance 30000, Fire 0]
        (endConversation (Some ''CA1'') (run (call_start @ exchange ''hello'' ''Hi there'') initial)))
        (Some ''CA1'') = None
   \<and> deletion_due (Some ''CA1'') (run (call_start @ exchange ''hello'' ''Hi there''
        @ [Message Stop, Close, Advance 1000, Fire 0, Advance 5000]) initial) = 30000
   \<and> conversationHistory (run [Advance 29999, Fire 0]
        (endConversation (Some ''CA1'') (run (call_start @ exchange ''hello'' ''Hi there''
        @ [Message Stop, Close, Advance 1000, Fire 0, Advance 5000]) initial)))
        (Some ''CA1'') = Some 0"
proof -
  let ?s = "run (call_start @ exchange ''hello'' ''Hi there'') initial"
  let ?u = "run (call_start @ exchange ''hello'' ''Hi there''
        @ [Message Stop, Close, Advance 1000, Fire 0, Advance 5000]) initial"
  have stored: "conversationHistory ?s (Some ''CA1'') = Some 0"
    by (simp add: relay_eval)
  have pending: "list_all (\<lambda>p. snd p \<noteq> DeleteHistory (Some ''CA1'')) (timers ?s)"
    by (simp add: relay_eval)
  have time: "now ?s = 0" and none: "timers ?s = []"
    by (simp_all add: relay_eval)
  have due: "deletion_due (Some ''CA1'') ?s = 30000"
    by (simp add: deletion_due_def time none)
  have early: "now (run [Advance 29999, Fire 0] (endConversation (Some ''CA1'') ?s)) < deletion_due (Some ''CA1'') ?s"
    unfolding due by (simp add: advance_def fire_def endConversation_def none time)
  have stored': "conversationHistory ?u (Some ''CA1'') = Some 0"
    by (simp add: relay_eval)
  have time': "now ?u = 5000" and timers': "timers ?u = [(30000, DeleteHistory (Some ''CA1''))]"
    by (simp_all add: relay_eval)
  have due': "deletion_due (Some ''CA1'') ?u = 30000"
    by (simp add: deletion_due_def time' timers')
  have early': "now (run [Advance 29999, Fire 0] (endConversation (Some ''CA1'') ?u)) < deletion_due (Some ''CA1'') ?u"
    unfolding due' by (simp add: advance_def fire_def endConversation_def timers' time')
  from history_kept_until_deletion_due [OF stored, of "[Advance 29999, Fire 0]" 30000]
    history_kept_until_deletion_due [OF stored', of "[Advance 29999, Fire 0]" 35000]
    early early' stored pending time none due due'
  show ?thesis by simp
qed

section \<open>The summary after a call's stop\<close>

lemma well_formed_span_parsed: "JSON_parse well_formed_span = Some (Parsed well_formed_span)"
proof -
  have "JSON_parse well_formed_span \<noteq> None"
    unfolding well_formed_span_def by code_simp
  then show ?thesis
    by (auto simp: JSON_parse_def split: option.splits if_splits)
qed

lemma well_formed_reply_matched: "match_braces well_formed_reply = Some well_formed_span"
  by (simp add: well_formed_reply_def well_formed_span_def match_braces_def)

lemma malformed_reply_rejected: "JSON_parse malformed_reply = None"
  unfolding malformed_reply_def by code_simp

lemma malformed_reply_matched: "match_braces malformed_reply = Some malformed_reply"
  by (simp add: malformed_reply_def match_braces_def)

text \<open>
  C1, as the claim states it, fails. The relay writes no Call Record itself; what it
  hands to the logging step is the summary, in the branch \<open>if (summary)\<close> of the stop
  callback. A call that stops with zero turns gets none (\<open>generateCallSummary\<close> returns
  \<open>null\<close> before any request), and neither does a call whose summary request fails.
\<close>

theorem stop_without_summary:
  "logged (run (call_start @ call_stop) initial) = []
   \<and> tasks (run (call_start @ call_stop) initial) = []
   \<and> logged (run (call_start @ exchange ''hello'' ''Hi there'' @ call_stop @ [Settle 0 None])
        initial) = []
   \<and> tasks (run (call_start @ exchange ''hello'' ''Hi there'' @ call_stop @ [Settle 0 None])
        initial) = []"
  by (simp add: relay_eval)

text \<open>
  C1, amended. For a call-stop event on a started call (stop, the callback one second
  later, the settling of the summary request), at most one summary is handed to the
  logging step. None is when the call has no history or only the system message
  (zero turns), and none is when the summary request fails. With at least one turn,
  exactly one is: the fallback (the first 200 characters of the transcript followed
  by three dots, no action items) when the reply holds no brace-delimited span, and
  the parsed object when the span is JSON.
\<close>

theorem call_stop_summary:
  assumes "truthy (sessionId s)"
  shows "let k = sessionId s;
             s' = run [Message Stop, Advance (now s + 1000), Fire (length (timers s)),
                       Settle (length (tasks s)) reply] s
         in length (logged s') \<le> Suc (length (logged s))
          \<and> (history_of s k = None \<longrightarrow> logged s' = logged s)
          \<and> (\<forall>h. history_of s k = Some h \<and> length h \<le> 1 \<longrightarrow> logged s' = logged s)
          \<and> (\<forall>h. history_of s k = Some h \<and> 1 < length h \<longrightarrow>
                (reply = None \<longrightarrow> logged s' = logged s)
              \<and> (\<forall>t. reply = Some t \<and> match_braces t = None \<longrightarrow>
                    logged s' = logged s @ [Literal ''Call summary generation failed''
                       (substring0 200 (join_lines (map speaker_line (tl h))) @ ''...'') [] []])
              \<and> (\<forall>t m j. reply = Some t \<and> match_braces t = Some m \<and> JSON_parse m = Some j \<longrightarrow>
                    logged s' = logged s @ [j]))"
  using assms
  by (auto simp: Let_def advance_def fire_def settle_def nth_append finish_def endConversation_def
        generateCallSummary_call_def generateCallSummary_return_def getConversationSummary_def
        history_of_def split: option.splits)

theorem call_stop_summary_witness:
  "truthy (sessionId (run (call_start @ exchange ''hello'' ''Hi there'') initial))
   \<and> history_of (run (call_start @ exchange ''hello'' ''Hi there'') initial) (Some ''CA1'')
       = Some [system_message, user_message ''hello'', assistant_message ''Hi there'']
   \<and> match_braces ''I could not summarise this call.'' = None
   \<and> logged (run [Message Stop, Advance 1000, Fire 0,
                  Settle 0 (Some ''I could not summarise this call.'')]
        (run (call_start @ exchange ''hello'' ''Hi there'') initial))
       = [Literal ''Call summary generation failed''
            (''Caller: hello'' @ [CHR 0x0A] @ ''Assistant: Hi there'' @ ''...'') [] []]
   \<and> match_braces well_formed_reply = Some well_formed_span
   \<and> JSON_parse well_formed_span = Some (Parsed well_formed_span)
   \<and> logged (run [Message Stop, Advance 1000, Fire 0, Settle 0 (Some well_formed_reply)]
        (run (call_start @ exchange ''hello'' ''Hi there'') initial))
       = [Parsed well_formed_span]"
proof -
  let ?s = "run (call_start @ exchange ''hello'' ''Hi there'') initial"
  have started: "truthy (sessionId ?s)"
    by (simp add: relay_eval)
  have stored: "history_of ?s (Some ''CA1'')
       = Some [system_message, user_message ''hello'', assistant_message ''Hi there'']"
    by (simp add: relay_eval)
  have unstructured: "match_braces ''I could not summarise this call.'' = None"
    by (simp add: match_braces_def)
  have state: "sessionId ?s = Some ''CA1''" "now ?s = 0" "timers ?s = []" "tasks ?s = []"
    "logged ?s = []"
    by (simp_all add: relay_eval)
  from call_stop_summary [OF started, of "Some ''I could not summarise this call.''"]
  have fallback: "logged (run [Message Stop, Advance 1000, Fire 0,
                  Settle 0 (Some ''I could not summarise this call.'')] ?s)
       = [Literal ''Call summary generation failed''
            (substring0 200 (join_lines (map speaker_line
               (tl [system_message, user_message ''hello'', assistant_message ''Hi there''])))
             @ ''...'') [] []]"
    unfolding Let_def state using stored unstructured by simp
  from call_stop_summary [OF started, of "Some well_formed_reply"]
  have parsed: "logged (run [Message Stop, Advance 1000, Fire 0, Settle 0 (Some well_formed_reply)] ?s)
       = [Parsed well_formed_span]"
    unfolding Let_def state using stored well_formed_reply_matched well_formed_span_parsed
    by simp
  from fallback parsed started stored unstructured well_formed_reply_matched well_formed_span_parsed
  show ?thesis
    by (simp add: substring0_def speaker_line_def user_message_def assistant_message_def)
qed

text \<open>
  C7 at a reply the code mishandles. The call has one turn; the collaborator's reply
  to the summary request holds a brace-delimited span that is not JSON (a trailing
  comma). \<open>JSON.parse\<close> throws inside the \<open>try\<close> block, the \<open>catch\<close> block returns \<open>null\<close>:
  the fallback summary is not produced and nothing is handed to the logging step.
\<close>

theorem malformed_json_gives_no_summary:
  "match_braces malformed_reply = Some malformed_reply
   \<and> JSON_parse malformed_reply = None
   \<and> generateCallSummary_return ''Caller: hello'' (Some malformed_reply) = None
   \<and> logged (run (call_start @ exchange ''hello'' ''Hi there'' @ call_stop
        @ [Settle 0 (Some malformed_reply)]) initial) = []"
  by (simp add: relay_eval malformed_reply_rejected malformed_reply_matched del: match_braces_def)

section \<open>The bound on the history\<close>

lemma ten_exchanges_unfolded:
  "ten_exchanges = exchange ''hi'' ''ok'' @ exchange ''hi'' ''ok'' @ exchange ''hi'' ''ok''
     @ exchange ''hi'' ''ok'' @ exchange ''hi'' ''ok'' @ exchange ''hi'' ''ok''
     @ exchange ''hi'' ''ok'' @ exchange ''hi'' ''ok'' @ exchange ''hi'' ''ok''
     @ exchange ''hi'' ''ok''"
  by (simp add: ten_exchanges_def eval_nat_numeral)

text \<open>
  On the success path the bound holds: a turn that starts from a history of at most 21
  messages and is answered leaves at most 21, with the same first message.
\<close>

lemma successful_turn_keeps_bound:
  assumes "\<not> isProcessing s" and "trim t \<noteq> []"
    and "base_history s (sessionId s) = m # ms" and "length (m # ms) \<le> 21"
  shows "\<exists>h. history_of (run [Message (Transcription (Some t)), Settle (length (tasks s)) (Some r)] s)
               (sessionId s) = Some (m # h) \<and> length (m # h) \<le> 21"
proof -
  have s1: "step (Message (Transcription (Some t))) s = on_message (Transcription (Some t)) s"
    by simp
  show ?thesis
    using assms(3,4)
    unfolding run.simps s1 dispatch [OF assms(1,2)]
    by (auto simp: settle_def processUserMessage_return_def Let_def history_of_def
          base_history_def splice_1_2_def split: option.splits)
qed

text \<open>
  C10 at a run the code mishandles. Ten successful turns fill the history to 21
  messages. An eleventh turn whose request fails pushes the caller's message and
  leaves through the \<open>catch\<close> block, before the trimming: the completed call leaves 22
  messages in the stored history.
\<close>

theorem history_exceeds_bound_after_failure:
  "map_option length (history_of (run (call_start @ ten_exchanges) initial) (Some ''CA1''))
     = Some 21
   \<and> map_option length (history_of (run (call_start @ ten_exchanges
        @ [Message (Transcription (Some ''hi'')), Settle 0 None]) initial) (Some ''CA1''))
     = Some 22"
  unfolding ten_exchanges_unfolded by (simp add: relay_eval)

section \<open>Searching the call records\<close>

lemma like_any: "like_match ''%'' s"
  by (induction s) auto

lemma like_percent:
  "like_match (CHR ''%'' # ps) s = (\<exists>t. suffix t s \<and> like_match ps t)"
proof (induction s)
  case Nil
  show ?case by simp
next
  case (Cons c cs)
  then show ?case by (auto simp: suffix_Cons)
qed

lemma like_plain_prefix:
  "list_all plain q \<Longrightarrow> like_match (q @ ''%'') s = prefix q s"
proof (induction q arbitrary: s)
  case Nil
  show ?case using like_any by simp
next
  case (Cons p q)
  then show ?case by (cases s) (auto simp: plain_def)
qed

lemma contains_plain:
  assumes "list_all plain q"
  shows "contains column q = occurs_in q column"
proof (cases column)
  case None
  then show ?thesis by (simp add: contains_def occurs_in_def)
next
  case (Some v)
  have "like_match (CHR ''%'' # q @ ''%'') v = (\<exists>t. suffix t v \<and> like_match (q @ ''%'') t)"
    by (rule like_percent)
  also have "\<dots> = (\<exists>t. suffix t v \<and> prefix q t)"
    using assms by (simp add: like_plain_prefix)
  also have "\<dots> = sublist q v"
    by (simp add: sublist_altdef')
  finally show ?thesis
    using Some by (simp add: contains_def occurs_in_def)
qed

text \<open>
  What the search does return: for a query without \<open>LIKE\<close> wild cards, the records in
  which the query occurs in the phone, the intent or the summary.
\<close>

lemma search_calls_three_fields:
  assumes "list_all plain q"
  shows "set (search_calls (Some q) db)
       = {c \<in> set db. occurs_in q (caller_phone c) \<or> occurs_in q (caller_intent c)
                       \<or> occurs_in q (summary c)}"
  using assms by (auto simp: search_calls_def contains_plain)

text \<open>
  C8 at a query the code mishandles. The query occurs in the transcript of the stored
  call, and in none of the three columns that \<open>search_calls\<close> filters on: the search
  returns no record, where the claim has it return the call.
\<close>

theorem search_misses_transcript_match:
  "occurs_in ''water heater'' (transcript sample_call)
   \<and> search_calls (Some ''water heater'') [sample_call] = []"
proof -
  have "sublist ''water heater'' (''Caller: my '' @ ''water heater'' @ '' is leaking'')"
    by (rule sublist_appendI)
  then have "occurs_in ''water heater'' (transcript sample_call)"
    by (simp add: occurs_in_def sample_call_def)
  moreover have "search_calls (Some ''water heater'') [sample_call] = []"
    by (simp add: sample_call_def search_calls_def contains_def)
  ultimately show ?thesis by simp
qed

end
